theory Spec2Isabelle
  imports Complex_Main "HOL-Library.Word"
begin

unbundle bit_operations_syntax

section \<open>BitFieldArray: a shallow embedding of \<^verbatim>\<open>bit_field_array.py\<close>\<close>

text \<open>
  Python integers are unbounded, so they are \<^typ>\<open>int\<close>; \<open>&\<close>, \<open>|\<close>, \<open><<\<close> and \<open>>>\<close> on
  them are \<open>AND\<close>, \<open>OR\<close>, \<open>push_bit\<close> and \<open>drop_bit\<close> (both languages read a negative
  integer as an infinite two's complement and shift right with floor). A \<open>bytes\<close> object is
  a list of 8-bit words. Exceptions are values of \<open>error\<close>.

  A slot object belongs to exactly one position of one array (the constructor creates
  them and no method of the class shares them), so an array is the list of its slots and
  a mutation returns the new list.
\<close>

datatype error = ValueError | IndexError | OverflowError

type_synonym byte = "8 word"

subsection \<open>Python's shifts\<close>

text \<open>\<open>a << k\<close> and \<open>a >> k\<close> raise \<open>ValueError: negative shift count\<close> for \<open>k < 0\<close>.\<close>

definition lshift :: "int \<Rightarrow> int \<Rightarrow> error + int" where
  "lshift a k = (if k < 0 then Inl ValueError else Inr (push_bit (nat k) a))"

definition rshift :: "int \<Rightarrow> int \<Rightarrow> error + int" where
  "rshift a k = (if k < 0 then Inl ValueError else Inr (drop_bit (nat k) a))"

subsection \<open>class BitField\<close>

text \<open>The attribute \<open>_value\<close> is the field \<open>val\<close>; \<open>None\<close> is Python's \<open>None\<close>.\<close>

record BitField =
  val :: "int option"
  max_bits :: int

text \<open>\<open>BitField.__init__(max_bits)\<close>\<close>

definition BitField_init :: "int \<Rightarrow> BitField" where
  "BitField_init bits = \<lparr>val = None, max_bits = bits\<rparr>"

text \<open>\<open>BitField.mask(value, bits)\<close>: \<open>value & ((1 << bits) - 1)\<close>\<close>

definition BitField_mask :: "int \<Rightarrow> int \<Rightarrow> error + int" where
  "BitField_mask v bits =
     (case lshift 1 bits of
        Inl e \<Rightarrow> Inl e
      | Inr s \<Rightarrow> Inr (v AND (s - 1)))"

text \<open>\<open>BitField.is_null\<close>\<close>

definition is_null :: "BitField \<Rightarrow> bool" where
  "is_null b = (val b = None)"

text \<open>
  \<open>BitField.assign(value)\<close>, through the setter of \<open>value\<close>: the mask is computed first, so
  an exception leaves the slot as it was.
\<close>

definition BitField_assign :: "BitField \<Rightarrow> int \<Rightarrow> error + BitField" where
  "BitField_assign b v =
     (case BitField_mask v (max_bits b) of
        Inl e \<Rightarrow> Inl e
      | Inr m \<Rightarrow> Inr (b\<lparr>val := Some m\<rparr>))"

subsection \<open>class BitFieldArray\<close>

text \<open>
  The module-level object \<open>_bits_sentinel = BitField(0)\<close> is shared by all arrays; the
  state a method works on is the sentinel together with \<open>self.data\<close>.
\<close>

definition bits_sentinel :: BitField where
  "bits_sentinel = BitField_init 0"

record world =
  sentinel :: BitField
  data :: "BitField list"

text \<open>
  \<open>BitFieldArray.__init__(*fields)\<close>: one slot per field, by \<open>map(BitField, fields)\<close>
  (the parameter \<open>fields\<close> is \<open>widths\<close> here).
  Neither constructor has a raising path; the result is a sum so that this can be said.
\<close>

definition BitFieldArray :: "int list \<Rightarrow> BitField list" where
  "BitFieldArray widths = map BitField_init widths"


text \<open>
  A mutating method returns the exception it raised, if any (\<open>None\<close>: it returned
  \<open>self\<close>), and the state it left behind.
\<close>

type_synonym outcome = "error option \<times> world"

text \<open>The argument of \<open>assign\<close>: an \<open>int\<close>, an iterable of \<open>int\<close>, or neither.\<close>

datatype assign_arg = Scalar int | Values "int list" | Other

text \<open>
  \<open>for value, bits in zip(value, generator): bits.assign(value)\<close>, the generator yielding
  the slots that are null when it reaches them. A slot assigned before an exception
  keeps its new value.
\<close>

fun assign_values :: "int list \<Rightarrow> BitField list \<Rightarrow> error option \<times> BitField list" where
  "assign_values [] bs = (None, bs)"
| "assign_values (v # vs) [] = (None, [])"
| "assign_values (v # vs) (b # bs) =
     (if is_null b then
        (case BitField_assign b v of
           Inl e \<Rightarrow> (Some e, b # bs)
         | Inr b' \<Rightarrow> (case assign_values vs bs of (r, bs') \<Rightarrow> (r, b' # bs')))
      else (case assign_values (v # vs) bs of (r, bs') \<Rightarrow> (r, b # bs')))"

text \<open>
  \<open>next(generator, _bits_sentinel).assign(value)\<close>: the first null slot, or the sentinel
  when there is none.
\<close>

fun assign_first :: "int \<Rightarrow> BitField list \<Rightarrow> (error + BitField list) option" where
  "assign_first v [] = None"
| "assign_first v (b # bs) =
     (if is_null b then
        Some (case BitField_assign b v of Inl e \<Rightarrow> Inl e | Inr b' \<Rightarrow> Inr (b' # bs))
      else (case assign_first v bs of
              None \<Rightarrow> None
            | Some (Inl e) \<Rightarrow> Some (Inl e)
            | Some (Inr bs') \<Rightarrow> Some (Inr (b # bs'))))"

definition assign :: "assign_arg \<Rightarrow> world \<Rightarrow> outcome" where
  "assign a w =
     (case a of
        Scalar v \<Rightarrow>
          (case assign_first v (data w) of
             None \<Rightarrow>
               (case BitField_assign (sentinel w) v of
                  Inl e \<Rightarrow> (Some e, w)
                | Inr s' \<Rightarrow> (None, w\<lparr>sentinel := s'\<rparr>))
           | Some (Inl e) \<Rightarrow> (Some e, w)
           | Some (Inr bs') \<Rightarrow> (None, w\<lparr>data := bs'\<rparr>))
      | Values vs \<Rightarrow>
          (case assign_values vs (data w) of (r, bs') \<Rightarrow> (r, w\<lparr>data := bs'\<rparr>))
      | Other \<Rightarrow> (None, w))"

text \<open>
  \<open>delete(index)\<close> is \<open>del self.data[index]\<close>: a negative index counts from the end, and
  an index outside \<open>-n \<le> index < n\<close> raises \<open>IndexError\<close> before anything changes.
\<close>

definition list_del :: "'a list \<Rightarrow> int \<Rightarrow> error + 'a list" where
  "list_del xs i =
     (let n = int (length xs); j = (if i < 0 then n + i else i)
      in if 0 \<le> j \<and> j < n then Inr (take (nat j) xs @ drop (Suc (nat j)) xs)
         else Inl IndexError)"

definition delete :: "int \<Rightarrow> world \<Rightarrow> outcome" where
  "delete index w =
     (case list_del (data w) index of
        Inl e \<Rightarrow> (Some e, w)
      | Inr bs' \<Rightarrow> (None, w\<lparr>data := bs'\<rparr>))"

text \<open>
  \<open>export()\<close>: the loop with its two accumulators \<open>n\<close> and \<open>pushed\<close>; \<open>break\<close> at the first
  null slot.
\<close>

fun export_loop :: "BitField list \<Rightarrow> int \<Rightarrow> int \<Rightarrow> error + int" where
  "export_loop [] n pushed = Inr n"
| "export_loop (i # rest) n pushed =
     (case val i of
        None \<Rightarrow> Inr n
      | Some v \<Rightarrow>
          (case lshift v pushed of
             Inl e \<Rightarrow> Inl e
           | Inr s \<Rightarrow> export_loop rest (n OR s) (pushed + max_bits i)))"

definition export :: "BitField list \<Rightarrow> error + int" where
  "export bs = export_loop bs 0 0"

text \<open>\<open>to_list()\<close>\<close>

definition to_list :: "BitField list \<Rightarrow> int option list" where
  "to_list bs = map val bs"

subsection \<open>The built-ins \<open>int.bit_length\<close>, \<open>int.to_bytes\<close> and \<open>int.from_bytes\<close>\<close>

text \<open>\<open>n.bit_length()\<close>: the number of bits of \<open>abs(n)\<close>.\<close>

fun bit_length_nat :: "nat \<Rightarrow> nat" where
  "bit_length_nat n = (if n = 0 then 0 else Suc (bit_length_nat (n div 2)))"

declare bit_length_nat.simps [simp del]

definition bit_length :: "int \<Rightarrow> int" where
  "bit_length n = int (bit_length_nat (nat \<bar>n\<bar>))"

text \<open>The \<open>k\<close> low bytes of \<open>n\<close>, least significant first.\<close>

fun le_bytes :: "nat \<Rightarrow> int \<Rightarrow> byte list" where
  "le_bytes 0 n = []"
| "le_bytes (Suc k) n = word_of_int n # le_bytes k (drop_bit 8 n)"

text \<open>
  \<open>n.to_bytes(length, byteorder)\<close>, unsigned: \<open>ValueError\<close> for a byte order other than
  \<open>'little'\<close> and \<open>'big'\<close> and for a negative length, \<open>OverflowError\<close> for a negative
  \<open>n\<close> and for one that does not fit.
\<close>

definition int_to_bytes :: "int \<Rightarrow> int \<Rightarrow> string \<Rightarrow> error + byte list" where
  "int_to_bytes n len order =
     (if order \<noteq> ''little'' \<and> order \<noteq> ''big'' then Inl ValueError
      else if len < 0 then Inl ValueError
      else if n < 0 then Inl OverflowError
      else if 2 ^ (8 * nat len) \<le> n then Inl OverflowError
      else Inr (if order = ''little'' then le_bytes (nat len) n
                else rev (le_bytes (nat len) n)))"

fun le_int :: "byte list \<Rightarrow> int" where
  "le_int [] = 0"
| "le_int (b # bs) = uint b OR push_bit 8 (le_int bs)"

text \<open>\<open>int.from_bytes(bytes, byteorder)\<close>, unsigned.\<close>

definition int_from_bytes :: "byte list \<Rightarrow> string \<Rightarrow> error + int" where
  "int_from_bytes bs order =
     (if order \<noteq> ''little'' \<and> order \<noteq> ''big'' then Inl ValueError
      else Inr (if order = ''little'' then le_int bs else le_int (rev bs)))"

subsection \<open>Export as bytes, decoding\<close>

text \<open>\<open>export_as_bytes(order)\<close>\<close>

definition export_as_bytes :: "BitField list \<Rightarrow> string \<Rightarrow> error + byte list" where
  "export_as_bytes bs order =
     (case export bs of
        Inl e \<Rightarrow> Inl e
      | Inr d \<Rightarrow> int_to_bytes d ((bit_length d + 7) div 8) order)"

text \<open>
  The loop of \<open>from_int\<close>: \<open>data.append(value & (1 << bits.max_bits) - 1)\<close>, then
  \<open>value >>= bits.max_bits\<close>.
\<close>

fun candidates :: "BitField list \<Rightarrow> int \<Rightarrow> error + int list" where
  "candidates [] v = Inr []"
| "candidates (bits # rest) v =
     (case lshift 1 (max_bits bits) of
        Inl e \<Rightarrow> Inl e
      | Inr s \<Rightarrow>
          (case rshift v (max_bits bits) of
             Inl e \<Rightarrow> Inl e
           | Inr v' \<Rightarrow>
               (case candidates rest v' of
                  Inl e \<Rightarrow> Inl e
                | Inr cs \<Rightarrow> Inr ((v AND (s - 1)) # cs))))"

text \<open>\<open>from_int(value)\<close>: \<open>return self.assign(data)\<close> with the list of candidates.\<close>

definition from_int :: "int \<Rightarrow> world \<Rightarrow> outcome" where
  "from_int v w =
     (case candidates (data w) v of
        Inl e \<Rightarrow> (Some e, w)
      | Inr cs \<Rightarrow> assign (Values cs) w)"

text \<open>\<open>from_bytes(value, order)\<close>\<close>

definition from_bytes :: "byte list \<Rightarrow> string \<Rightarrow> world \<Rightarrow> outcome" where
  "from_bytes bs order w =
     (case int_from_bytes bs order of
        Inl e \<Rightarrow> (Some e, w)
      | Inr as_int \<Rightarrow> from_int as_int w)"

subsection \<open>Indexing a slot\<close>

text \<open>
  \<open>array[index].assign(value)\<close>: \<open>UserList.__getitem__\<close> reads \<open>self.data[index]\<close>, with
  Python's list indexing, and the slot found is assigned.
\<close>

definition slot_assign :: "int \<Rightarrow> int \<Rightarrow> world \<Rightarrow> outcome" where
  "slot_assign index v w =
     (let n = int (length (data w)); j = (if index < 0 then n + index else index)
      in if 0 \<le> j \<and> j < n then
           (case BitField_assign (data w ! nat j) v of
              Inl e \<Rightarrow> (Some e, w)
            | Inr b' \<Rightarrow> (None, w\<lparr>data := (data w)[nat j := b']\<rparr>))
         else (Some IndexError, w))"

subsection \<open>Sequences of calls\<close>

text \<open>
  The calls that change an array. A call that raises leaves the state it had reached,
  and the caller may go on with it.
\<close>

datatype call =
    Assign assign_arg
  | Delete int
  | FromInt int
  | FromBytes "byte list" string
  | SlotAssign int int

fun exec :: "call \<Rightarrow> world \<Rightarrow> world" where
  "exec (Assign a) w = snd (assign a w)"
| "exec (Delete i) w = snd (delete i w)"
| "exec (FromInt v) w = snd (from_int v w)"
| "exec (FromBytes bs order) w = snd (from_bytes bs order w)"
| "exec (SlotAssign i v) w = snd (slot_assign i v w)"

definition run :: "call list \<Rightarrow> world \<Rightarrow> world" where
  "run cs w = fold exec cs w"

subsection \<open>Notions used to state the properties\<close>

text \<open>A slot is empty, or holds a value of at most \<open>max_bits\<close> bits.\<close>

definition slot_ok :: "BitField \<Rightarrow> bool" where
  "slot_ok b =
     (case val b of
        None \<Rightarrow> True
      | Some v \<Rightarrow> 0 \<le> max_bits b \<and> 0 \<le> v \<and> v < 2 ^ nat (max_bits b))"

text \<open>The number of null slots before position \<open>i\<close>.\<close>

definition rank :: "BitField list \<Rightarrow> nat \<Rightarrow> nat" where
  "rank bs i = length (filter is_null (take i bs))"

text \<open>The total width of the slots before position \<open>i\<close>.\<close>

definition offset :: "BitField list \<Rightarrow> nat \<Rightarrow> nat" where
  "offset bs i = nat (sum_list (map max_bits (take i bs)))"

text \<open>
  The positional candidate of slot \<open>i\<close>: \<open>(value >> offset) & ((1 << max_bits) - 1)\<close>.
\<close>

definition candidate :: "BitField list \<Rightarrow> int \<Rightarrow> nat \<Rightarrow> int" where
  "candidate bs v i = drop_bit (offset bs i) v AND (2 ^ nat (max_bits (bs ! i)) - 1)"

text \<open>
  The packed integer in the words of the specification: the slots before the first
  empty one, each value shifted left by the total width of the slots before it.
\<close>

definition first_empty :: "BitField list \<Rightarrow> nat" where
  "first_empty bs = length (takeWhile (\<lambda>b. \<not> is_null b) bs)"

definition contribution :: "BitField list \<Rightarrow> nat \<Rightarrow> int" where
  "contribution bs i = push_bit (offset bs i) (the (val (bs ! i)))"

definition packed :: "BitField list \<Rightarrow> int" where
  "packed bs = fold (\<lambda>i n. n OR contribution bs i) [0..<first_empty bs] 0"

text \<open>
  A width and a value that fits in it; the slots of a new array with the widths \<open>ws\<close>
  once the values \<open>vs\<close> are in them; and the integer these values pack to, the first
  value in the lowest bits.
\<close>

definition fits :: "int \<Rightarrow> int \<Rightarrow> bool" where
  "fits w v = (0 < w \<and> 0 \<le> v \<and> v < 2 ^ nat w)"

definition filled :: "int list \<Rightarrow> int list \<Rightarrow> BitField list" where
  "filled ws vs = map (\<lambda>(w, v). \<lparr>val = Some v, max_bits = w\<rparr>) (zip ws vs)"

fun pack :: "int list \<Rightarrow> int list \<Rightarrow> int" where
  "pack (w # ws) (v # vs) = v OR push_bit (nat w) (pack ws vs)"
| "pack _ _ = 0"

section \<open>Properties\<close>

subsection \<open>Assigning to one slot\<close>

lemma BitField_assign_nonneg:
  "0 \<le> max_bits b \<Longrightarrow>
   BitField_assign b v = Inr (b\<lparr>val := Some (v AND (2 ^ nat (max_bits b) - 1))\<rparr>)"
  by (simp add: BitField_assign_def BitField_mask_def lshift_def)

lemma BitField_assign_neg:
  "max_bits b < 0 \<Longrightarrow> BitField_assign b v = Inl ValueError"
  by (simp add: BitField_assign_def BitField_mask_def lshift_def)

lemma and_mask_bounds: "0 \<le> (v::int) AND (2 ^ n - 1) \<and> v AND (2 ^ n - 1) < 2 ^ n"
  by (simp flip: mask_eq_exp_minus_1 take_bit_eq_mask)

lemma BitField_assign_slot_ok: "BitField_assign b v = Inr b' \<Longrightarrow> slot_ok b'"
proof (cases "0 \<le> max_bits b")
  case True
  assume "BitField_assign b v = Inr b'"
  with True have "b' = b\<lparr>val := Some (v AND (2 ^ nat (max_bits b) - 1))\<rparr>"
    by (simp add: BitField_assign_nonneg)
  with True show ?thesis
    using and_mask_bounds [of v "nat (max_bits b)"] by (simp add: slot_ok_def)
next
  case False
  assume "BitField_assign b v = Inr b'"
  with False show ?thesis by (simp add: BitField_assign_neg)
qed

subsection \<open>Every call keeps the values within their widths\<close>

lemma assign_values_slot_ok:
  "list_all slot_ok bs \<Longrightarrow> list_all slot_ok (snd (assign_values vs bs))"
  by (induction vs bs rule: assign_values.induct)
     (auto simp: split_beta BitField_assign_slot_ok split: sum.splits)

lemma assign_first_slot_ok:
  "list_all slot_ok bs \<Longrightarrow> assign_first v bs = Some (Inr bs') \<Longrightarrow> list_all slot_ok bs'"
  by (induction bs arbitrary: bs')
     (auto simp: BitField_assign_slot_ok split: sum.splits if_splits option.splits)

lemma assign_slot_ok:
  "list_all slot_ok (data w) \<Longrightarrow> list_all slot_ok (data (snd (assign a w)))"
  by (cases a)
     (auto simp: assign_def split_beta assign_values_slot_ok
           dest: assign_first_slot_ok split: option.splits sum.splits)

lemma delete_slot_ok:
  "list_all slot_ok (data w) \<Longrightarrow> list_all slot_ok (data (snd (delete i w)))"
  by (auto simp: delete_def list_del_def Let_def list_all_iff split: sum.splits if_splits
           dest: in_set_takeD in_set_dropD)

lemma from_int_slot_ok:
  "list_all slot_ok (data w) \<Longrightarrow> list_all slot_ok (data (snd (from_int v w)))"
  by (auto simp: from_int_def assign_slot_ok split: sum.splits)

lemma from_bytes_slot_ok:
  "list_all slot_ok (data w) \<Longrightarrow> list_all slot_ok (data (snd (from_bytes bs order w)))"
  by (auto simp: from_bytes_def from_int_slot_ok split: sum.splits)

lemma slot_assign_slot_ok:
  "list_all slot_ok (data w) \<Longrightarrow> list_all slot_ok (data (snd (slot_assign i v w)))"
  by (auto simp: slot_assign_def Let_def list_all_iff BitField_assign_slot_ok
           split: sum.splits dest!: set_update_subset_insert [THEN subsetD])

lemma exec_slot_ok:
  "list_all slot_ok (data w) \<Longrightarrow> list_all slot_ok (data (exec c w))"
  by (cases c)
     (simp_all add: assign_slot_ok delete_slot_ok from_int_slot_ok from_bytes_slot_ok
        slot_assign_slot_ok)

lemma run_slot_ok:
  "list_all slot_ok (data w) \<Longrightarrow> list_all slot_ok (data (run cs w))"
  unfolding run_def by (induction cs arbitrary: w) (simp_all add: exec_slot_ok)

lemma BitFieldArray_slot_ok: "list_all slot_ok (BitFieldArray widths)"
  by (simp add: BitFieldArray_def BitField_init_def slot_ok_def list_all_iff)

text \<open>
  C9. A slot of positive width \<open>w\<close> accepts every integer \<open>v\<close>: the assignment does not
  raise, replaces whatever the slot held, and stores \<open>v & ((1 << w) - 1)\<close>. Hence,
  after any sequence of calls on a newly built array (calls that raised included), every
  slot that is not empty holds a value \<open>0 \<le> value < 2 ^ max_bits\<close>.
\<close>

theorem slot_assign_masks:
  "(0 < max_bits b \<longrightarrow>
      BitField_assign b v = Inr (b\<lparr>val := Some (v AND (2 ^ nat (max_bits b) - 1))\<rparr>)) \<and>
   (\<forall>x \<in> set (data (run cs \<lparr>sentinel = s, data = BitFieldArray widths\<rparr>)). slot_ok x)"
proof
  show "0 < max_bits b \<longrightarrow>
      BitField_assign b v = Inr (b\<lparr>val := Some (v AND (2 ^ nat (max_bits b) - 1))\<rparr>)"
    by (simp add: BitField_assign_nonneg)
  have "list_all slot_ok (data (run cs \<lparr>sentinel = s, data = BitFieldArray widths\<rparr>))"
    by (rule run_slot_ok) (simp add: BitFieldArray_slot_ok)
  then show "\<forall>x \<in> set (data (run cs \<lparr>sentinel = s, data = BitFieldArray widths\<rparr>)). slot_ok x"
    by (simp add: list_all_iff)
qed

theorem slot_assign_masks_witness:
  "0 < max_bits \<lparr>val = Some 6, max_bits = 3\<rparr> \<and>
   BitField_assign \<lparr>val = Some 6, max_bits = 3\<rparr> 11 = Inr \<lparr>val = Some 3, max_bits = 3\<rparr> \<and>
   data (run [Assign (Values [13, 300]), SlotAssign (- 1) 9, Delete 5]
          \<lparr>sentinel = bits_sentinel, data = BitFieldArray [3, 7, 2]\<rparr>) =
     [\<lparr>val = Some 5, max_bits = 3\<rparr>, \<lparr>val = Some 44, max_bits = 7\<rparr>,
      \<lparr>val = Some 1, max_bits = 2\<rparr>] \<and>
   list_all slot_ok (data (run [Assign (Values [13, 300]), SlotAssign (- 1) 9, Delete 5]
          \<lparr>sentinel = bits_sentinel, data = BitFieldArray [3, 7, 2]\<rparr>))"
  using slot_assign_masks [of "\<lparr>val = Some 6, max_bits = 3\<rparr>" 11
      "[Assign (Values [13, 300]), SlotAssign (- 1) 9, Delete 5]" bits_sentinel "[3, 7, 2]"]
  by (simp add: run_def assign_def slot_assign_def delete_def list_del_def
      BitFieldArray_def BitField_init_def bits_sentinel_def is_null_def
      BitField_assign_def BitField_mask_def lshift_def Let_def slot_ok_def)

subsection \<open>Assigning a sequence of values\<close>

lemma rank_0 [simp]: "rank bs 0 = 0"
  by (simp add: rank_def)

lemma rank_Suc [simp]:
  "rank (b # bs) (Suc i) = (if is_null b then Suc (rank bs i) else rank bs i)"
  by (simp add: rank_def)

lemma rank_le: "rank bs i \<le> i"
  unfolding rank_def by (rule order_trans [OF length_filter_le]) simp

lemma assign_values_length [simp]: "length (snd (assign_values vs bs)) = length bs"
  by (induction vs bs rule: assign_values.induct) (auto simp: split_beta split: sum.splits)

lemma assign_values_ok:
  "\<forall>b\<in>set bs. 0 \<le> max_bits b \<Longrightarrow> fst (assign_values vs bs) = None"
  by (induction vs bs rule: assign_values.induct)
     (auto simp: BitField_assign_nonneg split_beta)

lemma assign_values_nth:
  "\<forall>b\<in>set bs. 0 \<le> max_bits b \<Longrightarrow> i < length bs \<Longrightarrow>
   snd (assign_values vs bs) ! i =
     (if is_null (bs ! i) \<and> rank bs i < length vs
      then (bs ! i)\<lparr>val := Some (vs ! rank bs i AND (2 ^ nat (max_bits (bs ! i)) - 1))\<rparr>
      else bs ! i)"
proof (induction vs bs arbitrary: i rule: assign_values.induct)
  case (1 bs)
  then show ?case by simp
next
  case (2 v vs)
  then show ?case by simp
next
  case (3 v vs b bs)
  show ?case
  proof (cases i)
    case 0
    with 3 show ?thesis
      by (simp add: BitField_assign_nonneg split_beta)
  next
    case (Suc j)
    with 3 show ?thesis
      by (simp add: BitField_assign_nonneg split_beta)
  qed
qed

text \<open>
  C7. On an array whose widths are not negative, \<open>assign\<close> with a sequence \<open>vs\<close> returns
  the array and pairs the values with the slots that were empty at the call, from left
  to right: the empty slot with \<open>k\<close> empty slots before it receives \<open>vs[k]\<close> masked to its
  width when \<open>k < len(vs)\<close>, and stays empty otherwise; a slot that held a value is
  kept as it is; the number of slots does not change.
\<close>

theorem assign_sequence:
  assumes "\<forall>b\<in>set (data w). 0 \<le> max_bits b"
  shows "fst (assign (Values vs) w) = None \<and>
         sentinel (snd (assign (Values vs) w)) = sentinel w \<and>
         length (data (snd (assign (Values vs) w))) = length (data w) \<and>
         (\<forall>i<length (data w).
            data (snd (assign (Values vs) w)) ! i =
              (if is_null (data w ! i) \<and> rank (data w) i < length vs
               then (data w ! i)\<lparr>val :=
                      Some (vs ! rank (data w) i AND (2 ^ nat (max_bits (data w ! i)) - 1))\<rparr>
               else data w ! i))"
  using assms
  by (simp add: assign_def split_beta assign_values_ok assign_values_nth)

theorem assign_sequence_witness:
  "list_all (\<lambda>b. 0 \<le> max_bits b)
     [\<lparr>val = None, max_bits = 3\<rparr>, \<lparr>val = Some 6, max_bits = 7\<rparr>,
      \<lparr>val = None, max_bits = 2\<rparr>, \<lparr>val = None, max_bits = 4\<rparr>] \<and>
   assign (Values [13, 6])
     \<lparr>sentinel = bits_sentinel,
      data = [\<lparr>val = None, max_bits = 3\<rparr>, \<lparr>val = Some 6, max_bits = 7\<rparr>,
              \<lparr>val = None, max_bits = 2\<rparr>, \<lparr>val = None, max_bits = 4\<rparr>]\<rparr> =
   (None,
     \<lparr>sentinel = bits_sentinel,
      data = [\<lparr>val = Some 5, max_bits = 3\<rparr>, \<lparr>val = Some 6, max_bits = 7\<rparr>,
              \<lparr>val = Some 2, max_bits = 2\<rparr>, \<lparr>val = None, max_bits = 4\<rparr>]\<rparr>)"
  using assign_sequence [of "\<lparr>sentinel = bits_sentinel,
      data = [\<lparr>val = None, max_bits = 3\<rparr>, \<lparr>val = Some 6, max_bits = 7\<rparr>,
              \<lparr>val = None, max_bits = 2\<rparr>, \<lparr>val = None, max_bits = 4\<rparr>]\<rparr>" "[13, 6]"]
  by (simp add: assign_def is_null_def BitField_assign_def BitField_mask_def lshift_def)

subsection \<open>Assigning one value to a full array\<close>

lemma assign_first_full: "\<forall>b\<in>set bs. \<not> is_null b \<Longrightarrow> assign_first v bs = None"
  by (induction bs) simp_all

text \<open>
  C6. When no slot is empty, \<open>assign\<close> with one integer returns the array without
  raising and leaves all of its slots (values, widths, count) as they were: the value
  goes to the sentinel, whose width is 0.
\<close>

theorem assign_scalar_full:
  assumes "\<forall>b\<in>set (data w). \<not> is_null b" and "max_bits (sentinel w) = 0"
  shows "assign (Scalar v) w = (None, w\<lparr>sentinel := (sentinel w)\<lparr>val := Some 0\<rparr>\<rparr>) \<and>
         data (snd (assign (Scalar v) w)) = data w"
  using assms by (simp add: assign_def assign_first_full BitField_assign_nonneg)

theorem assign_scalar_full_witness:
  "list_all (\<lambda>b. \<not> is_null b) [\<lparr>val = Some 5, max_bits = 3\<rparr>, \<lparr>val = Some 0, max_bits = 7\<rparr>] \<and>
   max_bits bits_sentinel = 0 \<and>
   assign (Scalar 9)
     \<lparr>sentinel = bits_sentinel,
      data = [\<lparr>val = Some 5, max_bits = 3\<rparr>, \<lparr>val = Some 0, max_bits = 7\<rparr>]\<rparr> =
   (None,
     \<lparr>sentinel = \<lparr>val = Some 0, max_bits = 0\<rparr>,
      data = [\<lparr>val = Some 5, max_bits = 3\<rparr>, \<lparr>val = Some 0, max_bits = 7\<rparr>]\<rparr>)"
  using assign_scalar_full [of "\<lparr>sentinel = bits_sentinel,
      data = [\<lparr>val = Some 5, max_bits = 3\<rparr>, \<lparr>val = Some 0, max_bits = 7\<rparr>]\<rparr>" 9]
  by (simp add: is_null_def bits_sentinel_def BitField_init_def)

subsection \<open>Deleting with a negative index\<close>

text \<open>
  C10. On an array of \<open>n \<ge> 1\<close> slots, \<open>delete(i)\<close> with \<open>-n \<le> i < 0\<close> does not raise: the
  slot at position \<open>n + i\<close> is removed and the slots after it move one place to the left.
\<close>

theorem delete_negative_index:
  assumes "1 \<le> length (data w)" and "- int (length (data w)) \<le> i" and "i < 0"
  shows "delete i w =
           (None, w\<lparr>data := take (nat (int (length (data w)) + i)) (data w) @
                             drop (Suc (nat (int (length (data w)) + i))) (data w)\<rparr>)"
  using assms by (simp add: delete_def list_del_def Let_def)

theorem delete_negative_index_witness:
  "1 \<le> length (BitFieldArray [3, 7, 8]) \<and>
   - int (length (BitFieldArray [3, 7, 8])) \<le> - 2 \<and> (- 2 :: int) < 0 \<and>
   delete (- 2) \<lparr>sentinel = bits_sentinel, data = BitFieldArray [3, 7, 8]\<rparr> =
     (None, \<lparr>sentinel = bits_sentinel, data = BitFieldArray [3, 8]\<rparr>)"
  using delete_negative_index [of "\<lparr>sentinel = bits_sentinel, data = BitFieldArray [3, 7, 8]\<rparr>" "- 2"]
  by (simp add: BitFieldArray_def)

subsection \<open>Construction\<close>




subsection \<open>Bytes\<close>

lemma bit_length_nat_0 [simp]: "bit_length_nat 0 = 0"
  by (simp add: bit_length_nat.simps)

lemma bit_length_nat_bound: "n < 2 ^ bit_length_nat n"
proof (induction n rule: bit_length_nat.induct)
  case (1 n)
  show ?case
  proof (cases "n = 0")
    case True
    then show ?thesis by simp
  next
    case False
    with 1 have "n div 2 < 2 ^ bit_length_nat (n div 2)" by simp
    then have "n < 2 * 2 ^ bit_length_nat (n div 2)" by linarith
    with False show ?thesis by (subst bit_length_nat.simps) simp
  qed
qed

lemma bit_length_0 [simp]: "bit_length 0 = 0"
  by (simp add: bit_length_def)

lemma bit_length_nonneg [simp]: "0 \<le> bit_length n"
  by (simp add: bit_length_def)

lemma fits_in_bytes:
  assumes "0 \<le> n"
  shows "n < 2 ^ (8 * nat ((bit_length n + 7) div 8))"
proof -
  have "nat n < 2 ^ bit_length_nat (nat n)" by (rule bit_length_nat_bound)
  also have "\<dots> \<le> 2 ^ (8 * nat ((bit_length n + 7) div 8))"
    using assms by (intro power_increasing) (auto simp: bit_length_def)
  finally have "int (nat n) < int (2 ^ (8 * nat ((bit_length n + 7) div 8)))"
    by (simp only: of_nat_less_iff)
  with assms show ?thesis by simp
qed

lemma length_le_bytes [simp]: "length (le_bytes k n) = k"
  by (induction k arbitrary: n) simp_all

lemma ceiling_eighth: "\<lceil>real_of_int b / 8\<rceil> = (b + 7) div 8"
  by linarith

lemma le_int_le_bytes: "le_int (le_bytes k n) = take_bit (8 * k) n"
proof (induction k arbitrary: n)
  case 0
  then show ?case by simp
next
  case (Suc k)
  have "uint (word_of_int n :: byte) = take_bit 8 n"
    by (simp add: uint_word_of_int_eq)
  moreover have "take_bit 8 n OR push_bit 8 (take_bit (8 * k) (drop_bit 8 n)) = take_bit (8 * Suc k) n"
    by (rule bit_eqI) (auto simp: bit_simps)
  ultimately show ?case using Suc by simp
qed

lemma int_bytes_roundtrip:
  assumes "0 \<le> n" and "order = ''little'' \<or> order = ''big''"
  shows "\<exists>bs. int_to_bytes n ((bit_length n + 7) div 8) order = Inr bs \<and>
              int (length bs) = (bit_length n + 7) div 8 \<and>
              int_from_bytes bs order = Inr n"
proof -
  let ?k = "nat ((bit_length n + 7) div 8)"
  have fit: "n < 2 ^ (8 * ?k)" using assms(1) by (rule fits_in_bytes)
  have len: "0 \<le> (bit_length n + 7) div 8"
    using bit_length_nonneg [of n] by (simp add: pos_imp_zdiv_nonneg_iff)
  have "take_bit (8 * ?k) n = n"
    using assms(1) fit by (simp add: take_bit_int_eq_self)
  then have rt: "le_int (le_bytes ?k n) = n" by (simp add: le_int_le_bytes)
  from assms(2) show ?thesis
  proof
    assume "order = ''little''"
    with assms(1) fit len rt show ?thesis
      by (simp add: int_to_bytes_def int_from_bytes_def not_le)
  next
    assume "order = ''big''"
    with assms(1) fit len rt show ?thesis
      by (simp add: int_to_bytes_def int_from_bytes_def not_le)
  qed
qed

lemma export_loop_nonneg:
  "list_all slot_ok bs \<Longrightarrow> 0 \<le> n \<Longrightarrow> export_loop bs n p = Inr e \<Longrightarrow> 0 \<le> e"
proof (induction bs arbitrary: n p)
  case Nil
  then show ?case by simp
next
  case (Cons b bs)
  show ?case
  proof (cases "val b")
    case None
    with Cons.prems show ?thesis by simp
  next
    case (Some v)
    with Cons.prems have v: "0 \<le> v" by (simp add: slot_ok_def)
    from Cons.prems Some obtain s where s: "lshift v p = Inr s"
      and rest: "export_loop bs (n OR s) (p + max_bits b) = Inr e"
      by (auto split: sum.splits)
    from s v have "0 \<le> s" by (auto simp: lshift_def split: if_splits)
    with Cons.prems have "0 \<le> n OR s" by simp
    with Cons.IH [OF _ _ rest] Cons.prems show ?thesis by simp
  qed
qed

lemma export_nonneg: "list_all slot_ok bs \<Longrightarrow> export bs = Inr e \<Longrightarrow> 0 \<le> e"
  unfolding export_def by (rule export_loop_nonneg [where n = 0]) simp_all

text \<open>
  C5, as the code has it. For an array whose slots are within their widths and either
  byte order, \<open>export_as_bytes\<close> returns the empty byte string when the packed value is
  0, and \<open>ceil(bit_length(value) / 8)\<close> bytes when it is not.
\<close>

theorem export_as_bytes_length:
  assumes "list_all slot_ok bs" and "export bs = Inr n"
    and "order = ''little'' \<or> order = ''big''"
  shows "(n = 0 \<longrightarrow> export_as_bytes bs order = Inr []) \<and>
         (n \<noteq> 0 \<longrightarrow> (\<exists>out. export_as_bytes bs order = Inr out \<and>
              int (length out) = \<lceil>real_of_int (bit_length n) / 8\<rceil>))"
proof -
  from assms(1,2) have "0 \<le> n" by (rule export_nonneg)
  from int_bytes_roundtrip [OF this assms(3)] obtain out
    where out: "int_to_bytes n ((bit_length n + 7) div 8) order = Inr out"
      and len: "int (length out) = (bit_length n + 7) div 8"
    by blast
  from out len assms(2) show ?thesis
    by (auto simp: export_as_bytes_def ceiling_eighth)
qed

theorem export_as_bytes_length_witness:
  "list_all slot_ok [\<lparr>val = Some 5, max_bits = 3\<rparr>, \<lparr>val = Some 70, max_bits = 7\<rparr>] \<and>
   export [\<lparr>val = Some 5, max_bits = 3\<rparr>, \<lparr>val = Some 70, max_bits = 7\<rparr>] = Inr 565 \<and>
   (565 :: int) \<noteq> 0 \<and>
   (\<exists>out. export_as_bytes [\<lparr>val = Some 5, max_bits = 3\<rparr>, \<lparr>val = Some 70, max_bits = 7\<rparr>]
            ''big'' = Inr out \<and>
          int (length out) = \<lceil>real_of_int (bit_length 565) / 8\<rceil>)"
proof -
  have ok: "list_all slot_ok [\<lparr>val = Some 5, max_bits = 3\<rparr>, \<lparr>val = Some 70, max_bits = 7\<rparr>]"
    by (simp add: slot_ok_def)
  have ex: "export [\<lparr>val = Some 5, max_bits = 3\<rparr>, \<lparr>val = Some 70, max_bits = 7\<rparr>] = Inr 565"
    by (simp add: export_def lshift_def)
  from export_as_bytes_length [OF ok ex, of "''big''"] ok ex show ?thesis
    by simp
qed

text \<open>
  The claim as written fails on a new array of one 8-bit slot: its packed value is 0
  and both byte orders give the empty byte string, not one zero byte.
\<close>

theorem export_as_bytes_zero_counterexample:
  "export (BitFieldArray [8]) = Inr 0 \<and>
   export_as_bytes (BitFieldArray [8]) ''little'' = Inr [] \<and>
   export_as_bytes (BitFieldArray [8]) ''big'' = Inr [] \<and>
   export_as_bytes (BitFieldArray [8]) ''little'' \<noteq> Inr [0] \<and>
   export_as_bytes (BitFieldArray [8]) ''big'' \<noteq> Inr [0]"
  by (simp add: export_as_bytes_def export_def BitFieldArray_def BitField_init_def
      int_to_bytes_def)

subsection \<open>Export\<close>

lemma first_empty_all: "\<forall>b\<in>set pre. \<not> is_null b \<Longrightarrow> first_empty pre = length pre"
proof -
  assume "\<forall>b\<in>set pre. \<not> is_null b"
  then have "takeWhile (\<lambda>b. \<not> is_null b) pre = pre"
    by (simp add: takeWhile_eq_all_conv)
  then show ?thesis unfolding first_empty_def by (rule arg_cong)
qed

lemma first_empty_append:
  "\<forall>b\<in>set pre. \<not> is_null b \<Longrightarrow> is_null e \<Longrightarrow> first_empty (pre @ e # post) = length pre"
  by (simp add: first_empty_def takeWhile_append2)

lemma offset_length_append [simp]:
  "offset (pre @ xs) (length pre) = nat (sum_list (map max_bits pre))"
  by (simp add: offset_def)

lemma export_loop_packed:
  assumes "\<forall>b\<in>set pre. \<not> is_null b" and "list_all slot_ok (pre @ xs)"
  shows "export_loop xs (fold (\<lambda>i n. n OR contribution (pre @ xs) i) [0..<length pre] 0)
           (sum_list (map max_bits pre)) = Inr (packed (pre @ xs))"
  using assms
proof (induction xs arbitrary: pre)
  case Nil
  then show ?case by (simp add: packed_def first_empty_all)
next
  case (Cons b xs)
  show ?case
  proof (cases "val b")
    case None
    then have "is_null b" by (simp add: is_null_def)
    with Cons.prems(1) have "first_empty (pre @ b # xs) = length pre"
      by (rule first_empty_append)
    with None show ?thesis by (simp add: packed_def)
  next
    case (Some v)
    have widths: "0 \<le> sum_list (map max_bits pre)"
    proof (rule sum_list_nonneg)
      fix x assume "x \<in> set (map max_bits pre)"
      then obtain c where c: "c \<in> set pre" "x = max_bits c" by auto
      with Cons.prems have "\<not> is_null c" "slot_ok c" by (auto simp: list_all_iff)
      with c show "0 \<le> x" by (auto simp: slot_ok_def is_null_def split: option.splits)
    qed
    have nn: "\<forall>c\<in>set (pre @ [b]). \<not> is_null c"
      using Cons.prems(1) Some by (simp add: is_null_def)
    have ok: "list_all slot_ok ((pre @ [b]) @ xs)" using Cons.prems(2) by simp
    have contrib: "contribution (pre @ b # xs) (length pre) =
        push_bit (nat (sum_list (map max_bits pre))) v"
      using Some by (simp add: contribution_def)
    from Cons.IH [OF nn ok] Some widths contrib show ?thesis
      by (simp add: lshift_def)
  qed
qed

lemma export_packed: "list_all slot_ok bs \<Longrightarrow> export bs = Inr (packed bs)"
  using export_loop_packed [of "[]" bs] by (simp add: export_def)

lemma export_loop_stops:
  "\<forall>b\<in>set pre. \<not> is_null b \<Longrightarrow> is_null e \<Longrightarrow>
   export_loop (pre @ e # post) n p = export_loop pre n p"
  by (induction pre arbitrary: n p)
     (auto simp: is_null_def split: option.splits sum.splits)

text \<open>
  C3. \<open>export()\<close> returns the integer that the slots before the first empty one pack
  to, each value shifted left by the total width of the slots before it (for an array
  whose slots are within their widths); the first empty slot and all slots after it
  contribute nothing, whatever they hold; an array that is empty or whose first slot is
  empty exports 0.
\<close>

theorem export_filled_prefix:
  "(list_all slot_ok bs \<longrightarrow> export bs = Inr (packed bs)) \<and>
   (list_all (\<lambda>b. \<not> is_null b) pre \<and> is_null e \<longrightarrow> export (pre @ e # post) = export pre) \<and>
   (bs = [] \<or> is_null (hd bs) \<longrightarrow> export bs = Inr 0)"
proof (intro conjI impI)
  assume "list_all slot_ok bs"
  then show "export bs = Inr (packed bs)" by (rule export_packed)
next
  assume "list_all (\<lambda>b. \<not> is_null b) pre \<and> is_null e"
  then show "export (pre @ e # post) = export pre"
    by (simp add: export_def export_loop_stops list_all_iff)
next
  assume "bs = [] \<or> is_null (hd bs)"
  then show "export bs = Inr 0"
    by (cases bs) (auto simp: export_def is_null_def)
qed

theorem export_filled_prefix_witness:
  "list_all slot_ok [\<lparr>val = Some 5, max_bits = 3\<rparr>, \<lparr>val = Some 6, max_bits = 7\<rparr>,
                     \<lparr>val = None, max_bits = 8\<rparr>, \<lparr>val = Some 8, max_bits = 9\<rparr>] \<and>
   export [\<lparr>val = Some 5, max_bits = 3\<rparr>, \<lparr>val = Some 6, max_bits = 7\<rparr>,
           \<lparr>val = None, max_bits = 8\<rparr>, \<lparr>val = Some 8, max_bits = 9\<rparr>] = Inr 53 \<and>
   packed [\<lparr>val = Some 5, max_bits = 3\<rparr>, \<lparr>val = Some 6, max_bits = 7\<rparr>,
           \<lparr>val = None, max_bits = 8\<rparr>, \<lparr>val = Some 8, max_bits = 9\<rparr>] = 53 \<and>
   export ([\<lparr>val = Some 5, max_bits = 3\<rparr>, \<lparr>val = Some 6, max_bits = 7\<rparr>] @
           \<lparr>val = None, max_bits = 8\<rparr> # [\<lparr>val = Some 8, max_bits = 9\<rparr>]) =
     export [\<lparr>val = Some 5, max_bits = 3\<rparr>, \<lparr>val = Some 6, max_bits = 7\<rparr>] \<and>
   is_null (hd [\<lparr>val = None, max_bits = 8\<rparr>, \<lparr>val = Some 8, max_bits = 9\<rparr>]) \<and>
   export [\<lparr>val = None, max_bits = 8\<rparr>, \<lparr>val = Some 8, max_bits = 9\<rparr>] = Inr 0"
proof -
  let ?a = "\<lparr>val = Some 5, max_bits = 3\<rparr>" and ?b = "\<lparr>val = Some 6, max_bits = 7\<rparr>"
  let ?c = "\<lparr>val = None, max_bits = 8\<rparr>" and ?d = "\<lparr>val = Some 8, max_bits = 9\<rparr>"
  have ok: "list_all slot_ok [?a, ?b, ?c, ?d]" by (simp add: slot_ok_def)
  have pre: "list_all (\<lambda>b. \<not> is_null b) [?a, ?b] \<and> is_null ?c" by (simp add: is_null_def)
  have nul: "[?c, ?d] = [] \<or> is_null (hd [?c, ?d])" by (simp add: is_null_def)
  note t = export_filled_prefix [of "[?a, ?b, ?c, ?d]" "[?a, ?b]" ?c "[?d]"]
  note u = export_filled_prefix [of "[?c, ?d]" "[]" ?c "[?d]"]
  have e: "export [?a, ?b, ?c, ?d] = Inr (packed [?a, ?b, ?c, ?d])"
    using t ok by blast
  have p: "packed [?a, ?b, ?c, ?d] = 53"
    by (simp add: packed_def first_empty_def is_null_def contribution_def offset_def)
  have s: "export ([?a, ?b] @ ?c # [?d]) = export [?a, ?b]" using t pre by blast
  have z: "export [?c, ?d] = Inr 0" using u nul by blast
  from ok e p s z nul show ?thesis by simp
qed

subsection \<open>Decoding an integer\<close>

lemma BitField_assign_max_bits: "BitField_assign b v = Inr b' \<Longrightarrow> max_bits b' = max_bits b"
  by (auto simp: BitField_assign_def split: sum.splits)

lemma assign_values_max_bits:
  "map max_bits (snd (assign_values vs bs)) = map max_bits bs"
  by (induction vs bs rule: assign_values.induct)
     (auto simp: split_beta BitField_assign_max_bits split: sum.splits)

lemma candidates_closed:
  assumes "\<forall>b\<in>set (pre @ xs). 0 \<le> max_bits b"
  shows "candidates xs (drop_bit (offset (pre @ xs) (length pre)) v) =
           Inr (map (candidate (pre @ xs) v) [length pre..<length pre + length xs])"
  using assms
proof (induction xs arbitrary: pre)
  case Nil
  then show ?case by simp
next
  case (Cons b xs)
  have sum: "0 \<le> sum_list (map max_bits pre)"
    using Cons.prems by (intro sum_list_nonneg) auto
  have w: "0 \<le> max_bits b" using Cons.prems by simp
  have off: "offset ((pre @ [b]) @ xs) (length (pre @ [b])) =
               nat (max_bits b) + offset (pre @ b # xs) (length pre)"
    using sum w by (simp add: offset_def nat_add_distrib)
  have "\<forall>c\<in>set ((pre @ [b]) @ xs). 0 \<le> max_bits c" using Cons.prems by simp
  from Cons.IH [OF this] off
  have rest: "candidates xs (drop_bit (nat (max_bits b)) (drop_bit (offset (pre @ b # xs) (length pre)) v)) =
      Inr (map (candidate (pre @ b # xs) v) [Suc (length pre)..<Suc (length pre) + length xs])"
    by (simp add: drop_bit_drop_bit)
  have hd: "drop_bit (offset (pre @ b # xs) (length pre)) v AND (2 ^ nat (max_bits b) - 1) =
      candidate (pre @ b # xs) v (length pre)"
    by (simp add: candidate_def)
  have upt: "[length pre..<length pre + length (b # xs)] =
      length pre # [Suc (length pre)..<Suc (length pre) + length xs]"
    by (subst upt_conv_Cons) simp_all
  show ?case
    unfolding upt using w rest hd
    by (simp add: lshift_def rshift_def)
qed

lemma candidates_all:
  "\<forall>b\<in>set bs. 0 \<le> max_bits b \<Longrightarrow>
   candidates bs v = Inr (map (candidate bs v) [0..<length bs])"
  using candidates_closed [of "[]" bs v] by (simp add: offset_def)

lemma candidate_idem:
  "candidate bs v i AND (2 ^ nat (max_bits (bs ! i)) - 1) = candidate bs v i"
  by (simp add: candidate_def and.assoc)

text \<open>
  C1, as the code has it. On an array whose widths are not negative, \<open>from_int(value)\<close>
  computes the positional candidate of every slot and hands the list to the bulk
  \<open>assign\<close>: it returns the array; a slot that held a value is kept; the empty slot with
  \<open>k\<close> empty slots before it receives the candidate of position \<open>k\<close>, masked to its own
  width; if no slot before it held a value, this is its own candidate (nothing is said
  of whether it is otherwise); widths and slot count do not change.
\<close>

theorem from_int_assigns_by_rank:
  assumes "\<forall>b\<in>set (data w). 0 \<le> max_bits b"
  shows "candidates (data w) v = Inr (map (candidate (data w) v) [0..<length (data w)]) \<and>
         fst (from_int v w) = None \<and>
         sentinel (snd (from_int v w)) = sentinel w \<and>
         length (data (snd (from_int v w))) = length (data w) \<and>
         map max_bits (data (snd (from_int v w))) = map max_bits (data w) \<and>
         (\<forall>i<length (data w).
            data (snd (from_int v w)) ! i =
              (if is_null (data w ! i)
               then (data w ! i)\<lparr>val :=
                      Some (candidate (data w) v (rank (data w) i) AND
                            (2 ^ nat (max_bits (data w ! i)) - 1))\<rparr>
               else data w ! i) \<and>
            (is_null (data w ! i) \<and> rank (data w) i = i \<longrightarrow>
               val (data (snd (from_int v w)) ! i) = Some (candidate (data w) v i)))"
proof -
  let ?cs = "map (candidate (data w) v) [0..<length (data w)]"
  have fi: "from_int v w = assign (Values ?cs) w"
    using assms by (simp add: from_int_def candidates_all)
  have r: "rank (data w) i < length (data w)" if "i < length (data w)" for i
    using rank_le [of "data w" i] that by simp
  show ?thesis
    unfolding fi using assms r
    by (simp add: assign_def split_beta assign_values_ok assign_values_nth
        assign_values_max_bits candidate_idem candidates_all)
qed

theorem from_int_assigns_by_rank_witness:
  "list_all (\<lambda>b. 0 \<le> max_bits b)
     [\<lparr>val = None, max_bits = 2\<rparr>, \<lparr>val = Some 1, max_bits = 3\<rparr>, \<lparr>val = None, max_bits = 3\<rparr>] \<and>
   candidates
     [\<lparr>val = None, max_bits = 2\<rparr>, \<lparr>val = Some 1, max_bits = 3\<rparr>, \<lparr>val = None, max_bits = 3\<rparr>]
     187 = Inr [3, 6, 5] \<and>
   from_int 187
     \<lparr>sentinel = bits_sentinel,
      data = [\<lparr>val = None, max_bits = 2\<rparr>, \<lparr>val = Some 1, max_bits = 3\<rparr>,
              \<lparr>val = None, max_bits = 3\<rparr>]\<rparr> =
   (None,
     \<lparr>sentinel = bits_sentinel,
      data = [\<lparr>val = Some 3, max_bits = 2\<rparr>, \<lparr>val = Some 1, max_bits = 3\<rparr>,
              \<lparr>val = Some 6, max_bits = 3\<rparr>]\<rparr>)"
proof -
  let ?d = "[\<lparr>val = None, max_bits = 2\<rparr>, \<lparr>val = Some 1, max_bits = 3\<rparr>,
             \<lparr>val = None, max_bits = 3\<rparr>]"
  let ?w = "\<lparr>sentinel = bits_sentinel, data = ?d\<rparr>"
  have h: "\<forall>b\<in>set (data ?w). 0 \<le> max_bits b" by simp
  note t = from_int_assigns_by_rank [OF h, of 187]
  from t have c: "candidates ?d 187 = Inr (map (candidate ?d 187) [0..<length ?d])"
    by simp
  have m: "map (candidate ?d 187) [0..<length ?d] = [3, 6, 5]"
    by (simp add: candidate_def offset_def upt_rec)
  from c m have "candidates ?d 187 = Inr [3, 6, 5]" by simp
  then show ?thesis
    by (simp add: from_int_def assign_def is_null_def BitField_assign_def BitField_mask_def
        lshift_def)
qed

text \<open>
  The claim as written fails after \<open>BitFieldArray(1, 1).assign(0)\<close>: in \<open>from_int(2)\<close> the
  second slot is empty and its own candidate is 1, but it receives the candidate of the
  first slot, 0.
\<close>

theorem from_int_positional_counterexample:
  "snd (assign (Scalar 0) \<lparr>sentinel = bits_sentinel, data = BitFieldArray [1, 1]\<rparr>) =
     \<lparr>sentinel = bits_sentinel,
      data = [\<lparr>val = Some 0, max_bits = 1\<rparr>, \<lparr>val = None, max_bits = 1\<rparr>]\<rparr> \<and>
   is_null ([\<lparr>val = Some 0, max_bits = 1\<rparr>, \<lparr>val = None, max_bits = 1\<rparr>] ! 1) \<and>
   candidate [\<lparr>val = Some 0, max_bits = 1\<rparr>, \<lparr>val = None, max_bits = 1\<rparr>] 2 1 = 1 \<and>
   from_int 2 \<lparr>sentinel = bits_sentinel,
               data = [\<lparr>val = Some 0, max_bits = 1\<rparr>, \<lparr>val = None, max_bits = 1\<rparr>]\<rparr> =
     (None, \<lparr>sentinel = bits_sentinel,
             data = [\<lparr>val = Some 0, max_bits = 1\<rparr>, \<lparr>val = Some 0, max_bits = 1\<rparr>]\<rparr>) \<and>
   val (data (snd (from_int 2 \<lparr>sentinel = bits_sentinel,
               data = [\<lparr>val = Some 0, max_bits = 1\<rparr>, \<lparr>val = None, max_bits = 1\<rparr>]\<rparr>)) ! 1) \<noteq>
     Some (candidate [\<lparr>val = Some 0, max_bits = 1\<rparr>, \<lparr>val = None, max_bits = 1\<rparr>] 2 1)"
  by (simp add: is_null_def candidate_def offset_def from_int_def lshift_def rshift_def
      assign_def BitField_assign_def BitField_mask_def BitFieldArray_def BitField_init_def)

subsection \<open>Round trips\<close>

lemma and_mask_self: "0 \<le> (v::int) \<Longrightarrow> v < 2 ^ n \<Longrightarrow> v AND (2 ^ n - 1) = v"
  by (simp add: take_bit_int_eq_self flip: mask_eq_exp_minus_1 take_bit_eq_mask)

lemma pack_nonneg: "list_all2 fits ws vs \<Longrightarrow> 0 \<le> pack ws vs"
  by (induction rule: list_all2_induct) (simp_all add: fits_def)

lemma assign_values_fresh:
  "list_all2 fits ws vs \<Longrightarrow> assign_values vs (BitFieldArray ws) = (None, filled ws vs)"
proof (induction rule: list_all2_induct)
  case Nil
  then show ?case by (simp add: BitFieldArray_def filled_def)
next
  case (Cons w ws v vs)
  then have "assign_values vs (map BitField_init ws) = (None, filled ws vs)"
    by (simp add: BitFieldArray_def)
  moreover have "BitField_assign (BitField_init w) v = Inr \<lparr>val = Some v, max_bits = w\<rparr>"
    using Cons.hyps(1)
    by (simp add: BitField_assign_nonneg BitField_init_def fits_def and_mask_self)
  ultimately show ?case
    by (simp add: BitFieldArray_def filled_def is_null_def BitField_init_def)
qed

lemma export_loop_filled:
  "list_all2 fits ws vs \<Longrightarrow> 0 \<le> p \<Longrightarrow>
   export_loop (filled ws vs) n p = Inr (n OR push_bit (nat p) (pack ws vs))"
proof (induction arbitrary: n p rule: list_all2_induct)
  case Nil
  then show ?case by (simp add: filled_def)
next
  case (Cons w ws v vs)
  from Cons.hyps(1) Cons.prems have "0 \<le> p + w" by (simp add: fits_def)
  from Cons.IH [OF this, of "n OR push_bit (nat p) v"] Cons.hyps(1) Cons.prems
  have "export_loop (filled ws vs) (n OR push_bit (nat p) v) (p + w) =
          Inr (n OR push_bit (nat p) v OR push_bit (nat p + nat w) (pack ws vs))"
    by (simp add: fits_def nat_add_distrib or.assoc)
  then show ?case using Cons.prems
    by (simp add: filled_def lshift_def push_bit_add ac_simps)
qed

lemma export_filled: "list_all2 fits ws vs \<Longrightarrow> export (filled ws vs) = Inr (pack ws vs)"
  by (simp add: export_def export_loop_filled)

lemma unpack_head:
  assumes "0 \<le> v" and "v < 2 ^ n" 
  shows "(v OR push_bit n r) AND (2 ^ n - 1) = (v::int)"
proof -
  have "take_bit n (v OR push_bit n r) = take_bit n v"
    by (simp add: take_bit_push_bit)
  with assms show ?thesis
    by (simp add: take_bit_int_eq_self flip: mask_eq_exp_minus_1 take_bit_eq_mask)
qed

lemma unpack_tail:
  assumes "0 \<le> v" and "v < 2 ^ n" 
  shows "drop_bit n v OR drop_bit n (push_bit n r) = (r::int)"
proof -
  from assms have "drop_bit n v = 0" by (simp add: drop_bit_eq_div)
  then show ?thesis by (simp add: drop_bit_push_bit)
qed

lemma candidates_pack:
  "list_all2 fits ws vs \<Longrightarrow> candidates (BitFieldArray ws) (pack ws vs) = Inr vs"
proof (induction rule: list_all2_induct)
  case Nil
  then show ?case by (simp add: BitFieldArray_def)
next
  case (Cons w ws v vs)
  then show ?case
    by (simp add: BitFieldArray_def BitField_init_def lshift_def rshift_def fits_def
        unpack_head unpack_tail)
qed

lemma to_list_filled: "list_all2 fits ws vs \<Longrightarrow> to_list (filled ws vs) = map Some vs"
  by (induction rule: list_all2_induct) (simp_all add: to_list_def filled_def)

lemma from_int_fresh:
  "list_all2 fits ws vs \<Longrightarrow>
   from_int (pack ws vs) \<lparr>sentinel = s, data = BitFieldArray ws\<rparr> =
     (None, \<lparr>sentinel = s, data = filled ws vs\<rparr>)"
  by (simp add: from_int_def candidates_pack assign_def assign_values_fresh)

text \<open>
  C2. For positive widths \<open>ws\<close> and values \<open>vs\<close> that fit in them, one by one: assign
  \<open>vs\<close> to a new array of widths \<open>ws\<close>, export it, and decode the result with \<open>from_int\<close>
  on another new array of widths \<open>ws\<close>; then \<open>to_list()\<close> of that array is \<open>vs\<close>.
\<close>

theorem export_from_int_roundtrip:
  assumes "list_all2 (\<lambda>w v. 0 < w \<and> 0 \<le> v \<and> v < 2 ^ nat w) ws vs"
  shows "\<exists>e. export (data (snd (assign (Values vs) \<lparr>sentinel = s, data = BitFieldArray ws\<rparr>)))
               = Inr e \<and>
             fst (from_int e \<lparr>sentinel = s', data = BitFieldArray ws\<rparr>) = None \<and>
             to_list (data (snd (from_int e \<lparr>sentinel = s', data = BitFieldArray ws\<rparr>)))
               = map Some vs"
proof -
  from assms have f: "list_all2 fits ws vs"
    by (simp add: fits_def [abs_def])
  then show ?thesis
    by (simp add: assign_def assign_values_fresh export_filled from_int_fresh to_list_filled)
qed

theorem export_from_int_roundtrip_witness:
  "list_all2 (\<lambda>w v. 0 < w \<and> 0 \<le> v \<and> v < 2 ^ nat w) [3, 7, 8, 9] [5, 6, 7, 8 :: int] \<and>
   export (data (snd (assign (Values [5, 6, 7, 8])
      \<lparr>sentinel = bits_sentinel, data = BitFieldArray [3, 7, 8, 9]\<rparr>))) = Inr 2104373 \<and>
   fst (from_int 2104373 \<lparr>sentinel = bits_sentinel, data = BitFieldArray [3, 7, 8, 9]\<rparr>) = None \<and>
   to_list (data (snd (from_int 2104373
      \<lparr>sentinel = bits_sentinel, data = BitFieldArray [3, 7, 8, 9]\<rparr>))) =
     [Some 5, Some 6, Some 7, Some 8]"
proof -
  have h: "list_all2 (\<lambda>w v. 0 < w \<and> 0 \<le> v \<and> v < 2 ^ nat w) [3, 7, 8, 9] [5, 6, 7, 8 :: int]"
    by simp
  have e: "export (data (snd (assign (Values [5, 6, 7, 8])
      \<lparr>sentinel = bits_sentinel, data = BitFieldArray [3, 7, 8, 9]\<rparr>))) = Inr 2104373"
    by (simp add: assign_def BitFieldArray_def BitField_init_def is_null_def
        BitField_assign_def BitField_mask_def lshift_def export_def)
  from export_from_int_roundtrip [OF h, of bits_sentinel bits_sentinel] e h
  show ?thesis by simp
qed

text \<open>
  C8. The same through bytes, for both byte orders: \<open>from_bytes\<close> of the result of
  \<open>export_as_bytes\<close> on a new array of the same widths gives back \<open>vs\<close>.
\<close>

theorem bytes_roundtrip:
  assumes "list_all2 (\<lambda>w v. 0 < w \<and> 0 \<le> v \<and> v < 2 ^ nat w) ws vs"
    and "order = ''little'' \<or> order = ''big''"
  shows "\<exists>out. export_as_bytes
                 (data (snd (assign (Values vs) \<lparr>sentinel = s, data = BitFieldArray ws\<rparr>)))
                 order = Inr out \<and>
             fst (from_bytes out order \<lparr>sentinel = s', data = BitFieldArray ws\<rparr>) = None \<and>
             to_list (data (snd (from_bytes out order \<lparr>sentinel = s', data = BitFieldArray ws\<rparr>)))
               = map Some vs"
proof -
  from assms(1) have f: "list_all2 fits ws vs"
    by (simp add: fits_def [abs_def])
  then have "0 \<le> pack ws vs" by (rule pack_nonneg)
  from int_bytes_roundtrip [OF this assms(2)] obtain out
    where "int_to_bytes (pack ws vs) ((bit_length (pack ws vs) + 7) div 8) order = Inr out"
      and "int_from_bytes out order = Inr (pack ws vs)"
    by blast
  with f show ?thesis
    by (simp add: assign_def assign_values_fresh export_as_bytes_def export_filled
        from_bytes_def from_int_fresh to_list_filled)
qed

theorem bytes_roundtrip_witness:
  "list_all2 (\<lambda>w v. 0 < w \<and> 0 \<le> v \<and> v < 2 ^ nat w) [3, 7, 8, 9] [5, 6, 7, 8 :: int] \<and>
   export_as_bytes (data (snd (assign (Values [5, 6, 7, 8])
      \<lparr>sentinel = bits_sentinel, data = BitFieldArray [3, 7, 8, 9]\<rparr>))) ''big''
     = Inr [32, 28, 53] \<and>
   fst (from_bytes [32, 28, 53] ''big''
      \<lparr>sentinel = bits_sentinel, data = BitFieldArray [3, 7, 8, 9]\<rparr>) = None \<and>
   to_list (data (snd (from_bytes [32, 28, 53] ''big''
      \<lparr>sentinel = bits_sentinel, data = BitFieldArray [3, 7, 8, 9]\<rparr>))) =
     [Some 5, Some 6, Some 7, Some 8]"
proof -
  have h: "list_all2 (\<lambda>w v. 0 < w \<and> 0 \<le> v \<and> v < 2 ^ nat w) [3, 7, 8, 9] [5, 6, 7, 8 :: int]"
    by simp
  have o: "''big'' = ''little'' \<or> ''big'' = ''big''" by simp
  have e: "export (data (snd (assign (Values [5, 6, 7, 8])
      \<lparr>sentinel = bits_sentinel, data = BitFieldArray [3, 7, 8, 9]\<rparr>))) = Inr 2104373"
    by (simp add: assign_def BitFieldArray_def BitField_init_def is_null_def
        BitField_assign_def BitField_mask_def lshift_def export_def)
  have l: "bit_length 2104373 = 22"
    by (simp add: bit_length_def bit_length_nat.simps)
  have b: "export_as_bytes (data (snd (assign (Values [5, 6, 7, 8])
      \<lparr>sentinel = bits_sentinel, data = BitFieldArray [3, 7, 8, 9]\<rparr>))) ''big''
     = Inr [32, 28, 53]"
    by (simp add: export_as_bytes_def e l int_to_bytes_def numeral_3_eq_3 drop_bit_eq_div)
  from bytes_roundtrip [OF h o, of bits_sentinel bits_sentinel] b h
  show ?thesis by simp
qed

end
